theory Spec2Isabelle
  imports Main "HOL-Library.Word"
begin

unbundle bit_operations_syntax

section \<open>Machine types\<close>

text \<open>
  The typedefs \<open>u8\<close>, \<open>u16\<close>, \<open>u32\<close>, \<open>u64\<close> of the library are fixed-width unsigned
  integers. A \<open>char\<close> argument is represented by its byte value, which is what the
  source reads after every \<open>(u8)c\<close> or \<open>(unsigned char)c\<close> cast.
\<close>

type_synonym u8 = "8 word"
type_synonym u16 = "16 word"
type_synonym u32 = "32 word"
type_synonym u64 = "64 word"

section \<open>Character tables (util.c)\<close>

text \<open>The row macros \<open>Z16\<close> and \<open>O16\<close>; \<open>R16\<close> lists its sixteen arguments as they are.\<close>

definition Z16 :: "u8 list" where
  "Z16 = [0, 0, 0, 0, 0, 0, 0, 0, 0, 0, 0, 0, 0, 0, 0, 0]"

definition O16 :: "u8 list" where
  "O16 = [1, 1, 1, 1, 1, 1, 1, 1, 1, 1, 1, 1, 1, 1, 1, 1]"

definition h11_tchar_table :: "u8 list" where
  "h11_tchar_table =
     Z16 @ Z16 @
     [0, 1, 0, 1, 1, 1, 1, 1, 0, 0, 1, 1, 0, 1, 1, 0] @
     [1, 1, 1, 1, 1, 1, 1, 1, 1, 1, 0, 0, 0, 0, 0, 0] @
     [0, 1, 1, 1, 1, 1, 1, 1, 1, 1, 1, 1, 1, 1, 1, 1] @
     [1, 1, 1, 1, 1, 1, 1, 1, 1, 1, 1, 0, 0, 0, 1, 1] @
     [1, 1, 1, 1, 1, 1, 1, 1, 1, 1, 1, 1, 1, 1, 1, 1] @
     [1, 1, 1, 1, 1, 1, 1, 1, 1, 1, 1, 0, 1, 0, 1, 0] @
     Z16 @ Z16 @ Z16 @ Z16 @ Z16 @ Z16 @ Z16 @ Z16"

definition h11_vchar_table :: "u8 list" where
  "h11_vchar_table =
     [0, 0, 0, 0, 0, 0, 0, 0, 0, 1, 0, 0, 0, 0, 0, 0] @
     Z16 @
     O16 @ O16 @ O16 @ O16 @ O16 @
     [1, 1, 1, 1, 1, 1, 1, 1, 1, 1, 1, 1, 1, 1, 1, 0] @
     O16 @ O16 @ O16 @ O16 @ O16 @ O16 @ O16 @ O16"

definition h11_uri_table :: "u8 list" where
  "h11_uri_table =
     Z16 @ Z16 @
     [0, 1, 0, 0, 1, 1, 1, 1, 1, 1, 1, 1, 1, 1, 1, 1] @
     [1, 1, 1, 1, 1, 1, 1, 1, 1, 1, 1, 1, 0, 1, 0, 0] @
     O16 @
     [1, 1, 1, 1, 1, 1, 1, 1, 1, 1, 1, 0, 0, 0, 0, 1] @
     [0, 1, 1, 1, 1, 1, 1, 1, 1, 1, 1, 1, 1, 1, 1, 1] @
     [1, 1, 1, 1, 1, 1, 1, 1, 1, 1, 1, 0, 0, 0, 1, 0] @
     Z16 @ Z16 @ Z16 @ Z16 @ Z16 @ Z16 @ Z16 @ Z16"

text \<open>
  The classifiers of h11_internal.h index a table with the byte and convert the entry
  to \<open>bool\<close> (non-zero is true). Every table has 256 entries, so the index is in range.
\<close>

definition h11_is_tchar :: "u8 \<Rightarrow> bool" where
  "h11_is_tchar c = (h11_tchar_table ! unat c \<noteq> 0)"

definition h11_is_vchar :: "u8 \<Rightarrow> bool" where
  "h11_is_vchar c = (h11_vchar_table ! unat c \<noteq> 0)"

definition h11_is_uri :: "u8 \<Rightarrow> bool" where
  "h11_is_uri c = (h11_uri_table ! unat c \<noteq> 0)"

section \<open>Hex-nibble decoder (util.c)\<close>

text \<open>
  \<open>unsigned u = (unsigned char)c\<close> widens the byte to 32 bits; the subtractions wrap
  around, and \<open>(int)\<close> reads the 32-bit result as a signed value.
\<close>

definition h11_hexval :: "u8 \<Rightarrow> int" where
  "h11_hexval c =
     (let u = (ucast c :: u32) in
      if u - 0x30 \<le> 9 then sint (u - 0x30)
      else let u = u OR 0x20 in
        if u - 0x61 \<le> 5 then sint (u - 0x61 + 10)
        else - 1)"

section \<open>Error catalog (h11.h, util.c)\<close>

text \<open>
  The enumerators of \<open>h11_error_t\<close> are integer constants numbered from 0 in the order
  of their declaration; \<open>H11_ERR__COUNT\<close> closes the enumeration.
\<close>
definition H11_OK :: int where "H11_OK = 0"
definition H11_NEED_MORE_DATA :: int where "H11_NEED_MORE_DATA = 1"
definition H11_ERR_INVALID_METHOD :: int where "H11_ERR_INVALID_METHOD = 2"
definition H11_ERR_INVALID_TARGET :: int where "H11_ERR_INVALID_TARGET = 3"
definition H11_ERR_INVALID_VERSION :: int where "H11_ERR_INVALID_VERSION = 4"
definition H11_ERR_REQUEST_LINE_TOO_LONG :: int where "H11_ERR_REQUEST_LINE_TOO_LONG = 5"
definition H11_ERR_INVALID_CRLF :: int where "H11_ERR_INVALID_CRLF = 6"
definition H11_ERR_INVALID_HEADER_NAME :: int where "H11_ERR_INVALID_HEADER_NAME = 7"
definition H11_ERR_INVALID_HEADER_VALUE :: int where "H11_ERR_INVALID_HEADER_VALUE = 8"
definition H11_ERR_HEADER_LINE_TOO_LONG :: int where "H11_ERR_HEADER_LINE_TOO_LONG = 9"
definition H11_ERR_TOO_MANY_HEADERS :: int where "H11_ERR_TOO_MANY_HEADERS = 10"
definition H11_ERR_HEADERS_TOO_LARGE :: int where "H11_ERR_HEADERS_TOO_LARGE = 11"
definition H11_ERR_OBS_FOLD_REJECTED :: int where "H11_ERR_OBS_FOLD_REJECTED = 12"
definition H11_ERR_LEADING_WHITESPACE :: int where "H11_ERR_LEADING_WHITESPACE = 13"
definition H11_ERR_MISSING_HOST :: int where "H11_ERR_MISSING_HOST = 14"
definition H11_ERR_MULTIPLE_HOST :: int where "H11_ERR_MULTIPLE_HOST = 15"
definition H11_ERR_INVALID_HOST :: int where "H11_ERR_INVALID_HOST = 16"
definition H11_ERR_INVALID_CONTENT_LENGTH :: int where "H11_ERR_INVALID_CONTENT_LENGTH = 17"
definition H11_ERR_MULTIPLE_CONTENT_LENGTH :: int where "H11_ERR_MULTIPLE_CONTENT_LENGTH = 18"
definition H11_ERR_CONTENT_LENGTH_OVERFLOW :: int where "H11_ERR_CONTENT_LENGTH_OVERFLOW = 19"
definition H11_ERR_INVALID_TRANSFER_ENCODING :: int where "H11_ERR_INVALID_TRANSFER_ENCODING = 20"
definition H11_ERR_TE_NOT_CHUNKED_FINAL :: int where "H11_ERR_TE_NOT_CHUNKED_FINAL = 21"
definition H11_ERR_TE_CL_CONFLICT :: int where "H11_ERR_TE_CL_CONFLICT = 22"
definition H11_ERR_UNKNOWN_TRANSFER_CODING :: int where "H11_ERR_UNKNOWN_TRANSFER_CODING = 23"
definition H11_ERR_BODY_TOO_LARGE :: int where "H11_ERR_BODY_TOO_LARGE = 24"
definition H11_ERR_INVALID_CHUNK_SIZE :: int where "H11_ERR_INVALID_CHUNK_SIZE = 25"
definition H11_ERR_CHUNK_SIZE_OVERFLOW :: int where "H11_ERR_CHUNK_SIZE_OVERFLOW = 26"
definition H11_ERR_INVALID_CHUNK_EXT :: int where "H11_ERR_INVALID_CHUNK_EXT = 27"
definition H11_ERR_CHUNK_EXT_TOO_LONG :: int where "H11_ERR_CHUNK_EXT_TOO_LONG = 28"
definition H11_ERR_INVALID_CHUNK_DATA :: int where "H11_ERR_INVALID_CHUNK_DATA = 29"
definition H11_ERR_INVALID_TRAILER :: int where "H11_ERR_INVALID_TRAILER = 30"
definition H11_ERR_CONNECTION_CLOSED :: int where "H11_ERR_CONNECTION_CLOSED = 31"
definition H11_ERR_INTERNAL :: int where "H11_ERR_INTERNAL = 32"
definition H11_ERR__COUNT :: int where "H11_ERR__COUNT = 33"

text \<open>The X-macro list of util.c: enumerator, symbolic name, message.\<close>

definition H11_ERROR_LIST :: "(int \<times> string \<times> string) list" where
  "H11_ERROR_LIST =
    [(H11_OK, ''H11_OK'', ''Success''),
     (H11_NEED_MORE_DATA, ''H11_NEED_MORE_DATA'', ''Need more data''),
     (H11_ERR_INVALID_METHOD, ''H11_ERR_INVALID_METHOD'', ''Invalid HTTP method''),
     (H11_ERR_INVALID_TARGET, ''H11_ERR_INVALID_TARGET'', ''Invalid request target''),
     (H11_ERR_INVALID_VERSION, ''H11_ERR_INVALID_VERSION'', ''Invalid HTTP version''),
     (H11_ERR_REQUEST_LINE_TOO_LONG, ''H11_ERR_REQUEST_LINE_TOO_LONG'', ''Request line too long''),
     (H11_ERR_INVALID_CRLF, ''H11_ERR_INVALID_CRLF'', ''Invalid line ending''),
     (H11_ERR_INVALID_HEADER_NAME, ''H11_ERR_INVALID_HEADER_NAME'', ''Invalid header name''),
     (H11_ERR_INVALID_HEADER_VALUE, ''H11_ERR_INVALID_HEADER_VALUE'', ''Invalid header value''),
     (H11_ERR_HEADER_LINE_TOO_LONG, ''H11_ERR_HEADER_LINE_TOO_LONG'', ''Header line too long''),
     (H11_ERR_TOO_MANY_HEADERS, ''H11_ERR_TOO_MANY_HEADERS'', ''Too many headers''),
     (H11_ERR_HEADERS_TOO_LARGE, ''H11_ERR_HEADERS_TOO_LARGE'', ''Headers section too large''),
     (H11_ERR_OBS_FOLD_REJECTED, ''H11_ERR_OBS_FOLD_REJECTED'', ''Obsolete line folding rejected''),
     (H11_ERR_LEADING_WHITESPACE, ''H11_ERR_LEADING_WHITESPACE'', ''Leading whitespace in header section''),
     (H11_ERR_MISSING_HOST, ''H11_ERR_MISSING_HOST'', ''Missing Host header''),
     (H11_ERR_MULTIPLE_HOST, ''H11_ERR_MULTIPLE_HOST'', ''Multiple Host headers''),
     (H11_ERR_INVALID_HOST, ''H11_ERR_INVALID_HOST'', ''Invalid Host header value''),
     (H11_ERR_INVALID_CONTENT_LENGTH, ''H11_ERR_INVALID_CONTENT_LENGTH'', ''Invalid Content-Length value''),
     (H11_ERR_MULTIPLE_CONTENT_LENGTH, ''H11_ERR_MULTIPLE_CONTENT_LENGTH'', ''Conflicting Content-Length values''),
     (H11_ERR_CONTENT_LENGTH_OVERFLOW, ''H11_ERR_CONTENT_LENGTH_OVERFLOW'', ''Content-Length value overflow''),
     (H11_ERR_INVALID_TRANSFER_ENCODING, ''H11_ERR_INVALID_TRANSFER_ENCODING'', ''Invalid Transfer-Encoding''),
     (H11_ERR_TE_NOT_CHUNKED_FINAL, ''H11_ERR_TE_NOT_CHUNKED_FINAL'', ''Transfer-Encoding final coding is not chunked''),
     (H11_ERR_TE_CL_CONFLICT, ''H11_ERR_TE_CL_CONFLICT'', ''Transfer-Encoding and Content-Length both present''),
     (H11_ERR_UNKNOWN_TRANSFER_CODING, ''H11_ERR_UNKNOWN_TRANSFER_CODING'', ''Unknown transfer coding''),
     (H11_ERR_BODY_TOO_LARGE, ''H11_ERR_BODY_TOO_LARGE'', ''Body exceeds maximum size''),
     (H11_ERR_INVALID_CHUNK_SIZE, ''H11_ERR_INVALID_CHUNK_SIZE'', ''Invalid chunk size''),
     (H11_ERR_CHUNK_SIZE_OVERFLOW, ''H11_ERR_CHUNK_SIZE_OVERFLOW'', ''Chunk size overflow''),
     (H11_ERR_INVALID_CHUNK_EXT, ''H11_ERR_INVALID_CHUNK_EXT'', ''Invalid chunk extension''),
     (H11_ERR_CHUNK_EXT_TOO_LONG, ''H11_ERR_CHUNK_EXT_TOO_LONG'', ''Chunk extension too long''),
     (H11_ERR_INVALID_CHUNK_DATA, ''H11_ERR_INVALID_CHUNK_DATA'', ''Invalid chunk data''),
     (H11_ERR_INVALID_TRAILER, ''H11_ERR_INVALID_TRAILER'', ''Invalid trailer field''),
     (H11_ERR_CONNECTION_CLOSED, ''H11_ERR_CONNECTION_CLOSED'', ''Connection closed''),
     (H11_ERR_INTERNAL, ''H11_ERR_INTERNAL'', ''Internal error'')]"

text \<open>
  A \<open>const char *\<close> result is \<open>None\<close> for a null pointer and \<open>Some s\<close> for a string.
  An array written with designated initializers \<open>[e] = v\<close> starts with every element
  null and receives one store per initializer, in order.
\<close>

definition designated_init :: "nat \<Rightarrow> (int \<times> 'a) list \<Rightarrow> 'a option list" where
  "designated_init n inits =
     fold (\<lambda>(e, v) arr. arr[nat e := Some v]) inits (replicate n None)"

definition error_names :: "string option list" where
  "error_names =
     designated_init (nat H11_ERR__COUNT) (map (\<lambda>(e, n, m). (e, n)) H11_ERROR_LIST)"

definition error_messages :: "string option list" where
  "error_messages =
     designated_init (nat H11_ERR__COUNT) (map (\<lambda>(e, n, m). (e, m)) H11_ERROR_LIST)"

text \<open>
  The argument is the 32-bit representation of the \<open>h11_error_t\<close> value (\<open>sint\<close> reads
  it as the signed ordinal); \<open>(unsigned)error\<close> reinterprets the same bits, and the
  order on words is the unsigned one.
\<close>

definition h11_error_name :: "32 word \<Rightarrow> string option" where
  "h11_error_name error =
     (if error \<ge> word_of_int H11_ERR__COUNT then Some ''UNKNOWN''
      else error_names ! unat error)"

definition h11_error_message :: "32 word \<Rightarrow> string option" where
  "h11_error_message error =
     (if error \<ge> word_of_int H11_ERR__COUNT then Some ''UNKNOWN''
      else error_messages ! unat error)"

section \<open>Configuration (h11.h, util.c)\<close>

definition H11_CFG_STRICT_CRLF :: u32 where
  "H11_CFG_STRICT_CRLF = push_bit 0 1"
definition H11_CFG_REJECT_OBS_FOLD :: u32 where
  "H11_CFG_REJECT_OBS_FOLD = push_bit 1 1"
definition H11_CFG_ALLOW_OBS_TEXT :: u32 where
  "H11_CFG_ALLOW_OBS_TEXT = push_bit 2 1"
definition H11_CFG_ALLOW_LEADING_CRLF :: u32 where
  "H11_CFG_ALLOW_LEADING_CRLF = push_bit 3 1"
definition H11_CFG_TOLERATE_SPACES :: u32 where
  "H11_CFG_TOLERATE_SPACES = push_bit 4 1"
definition H11_CFG_REJECT_TE_CL_CONFLICT :: u32 where
  "H11_CFG_REJECT_TE_CL_CONFLICT = push_bit 5 1"

definition UINT64_MAX :: u64 where
  "UINT64_MAX = 0xFFFFFFFFFFFFFFFF"

record h11_config_t =
  max_body_size :: u64
  max_request_line_len :: u32
  max_header_line_len :: u32
  max_headers_size :: u32
  max_header_count :: u32
  max_chunk_ext_len :: u32
  flags :: u32
  reserved0 :: u32

definition h11_config_default :: h11_config_t where
  "h11_config_default =
     \<lparr> max_body_size = UINT64_MAX,
       max_request_line_len = 8192,
       max_header_line_len = 8192,
       max_headers_size = 65536,
       max_header_count = 100,
       max_chunk_ext_len = 1024,
       flags = H11_CFG_STRICT_CRLF OR H11_CFG_REJECT_OBS_FOLD OR
               H11_CFG_ALLOW_OBS_TEXT OR H11_CFG_ALLOW_LEADING_CRLF OR
               H11_CFG_REJECT_TE_CL_CONFLICT,
       reserved0 = 0 \<rparr>"

section \<open>Spans, headers and requests (h11.h)\<close>

definition H11_KHDR_HOST :: u16 where "H11_KHDR_HOST = 0"
definition H11_KHDR_CONTENT_LENGTH :: u16 where "H11_KHDR_CONTENT_LENGTH = 1"
definition H11_KHDR_TRANSFER_ENCODING :: u16 where "H11_KHDR_TRANSFER_ENCODING = 2"
definition H11_KHDR_CONNECTION :: u16 where "H11_KHDR_CONNECTION = 3"
definition H11_KHDR_EXPECT :: u16 where "H11_KHDR_EXPECT = 4"
definition H11_KHDR_UPGRADE :: u16 where "H11_KHDR_UPGRADE = 5"
definition H11_KHDR_COUNT :: nat where "H11_KHDR_COUNT = 6"

definition H11_HEADER_F_KNOWN_NAME :: u16 where
  "H11_HEADER_F_KNOWN_NAME = push_bit 0 1"

definition H11_INDEX_NONE :: u16 where
  "H11_INDEX_NONE = 0xFFFF"

record h11_span_t =
  off :: u32
  len :: u32

record h11_header_t =
  name :: h11_span_t
  "value" :: h11_span_t
  name_id :: u16
  flags :: u16

text \<open>
  A pointer to an array is \<open>None\<close> when null and \<open>Some xs\<close> when it points to the
  elements \<open>xs\<close>. \<open>known_idx\<close> is an array of \<open>H11_KHDR_COUNT\<close> entries.
\<close>

record h11_request_t =
  "method" :: h11_span_t
  target :: h11_span_t
  content_length :: u64
  header_count :: u32
  trailer_count :: u32
  version :: u16
  target_form :: u8
  body_type :: u8
  flags :: u16
  reserved0 :: u16
  known_idx :: "u16 list"
  reserved1 :: u16
  headers :: "h11_header_t list option"
  trailers :: "h11_header_t list option"

section \<open>Case-insensitive comparison and header lookup (util.c)\<close>

definition h11_ascii_fold :: "u8 \<Rightarrow> u8" where
  "h11_ascii_fold c = (if c \<ge> 0x41 \<and> c \<le> 0x5A then c OR 0x20 else c)"

text \<open>
  Reading an array element: an index outside the array is undefined behaviour in C,
  which the model reports as \<open>None\<close>.
\<close>

definition read_at :: "'a list \<Rightarrow> nat \<Rightarrow> 'a option" where
  "read_at xs i = (if i < length xs then Some (xs ! i) else None)"

text \<open>
  The loop of \<open>h11_span_eq_case\<close>. \<open>ap\<close> and \<open>bp\<close> are the bytes from the two
  pointers onwards. The type \<open>usize\<close> holds every object size, so the counter \<open>i\<close>
  and the bound \<open>blen\<close> are natural numbers and \<open>i++\<close> never wraps below \<open>blen\<close>.
\<close>

function span_eq_loop :: "u8 list \<Rightarrow> u8 list \<Rightarrow> nat \<Rightarrow> nat \<Rightarrow> bool option" where
  "span_eq_loop ap bp blen i =
     (if i < blen then
        (case read_at ap i of
           None \<Rightarrow> None
         | Some x \<Rightarrow>
             (case read_at bp i of
                None \<Rightarrow> None
              | Some y \<Rightarrow>
                  if h11_ascii_fold x \<noteq> h11_ascii_fold y then Some False
                  else span_eq_loop ap bp blen (Suc i)))
      else Some True)"
  by pat_completeness auto
termination
  by (relation "measure (\<lambda>(ap, bp, blen, i). blen - i)") auto

text \<open>
  The null checks come first, in the order of the source; the arrays behind the
  pointers are read only after them.
\<close>

definition h11_span_eq_case ::
  "u8 list option \<Rightarrow> h11_span_t \<Rightarrow> u8 list option \<Rightarrow> nat \<Rightarrow> bool option" where
  "h11_span_eq_case base a b blen =
     (case base of
        None \<Rightarrow> Some False
      | Some bs \<Rightarrow>
          (case b of
             None \<Rightarrow> Some False
           | Some cs \<Rightarrow>
               if unat (len a) \<noteq> blen then Some False
               else span_eq_loop (drop (unat (off a)) bs) cs blen 0))"

text \<open>
  \<open>strlen\<close> of the C library: the number of bytes before the first NUL. Running off
  the end of the array without meeting one is undefined behaviour (\<open>None\<close>).
\<close>

fun strlen :: "u8 list \<Rightarrow> nat option" where
  "strlen [] = None"
| "strlen (c # cs) = (if c = 0 then Some 0 else map_option Suc (strlen cs))"

definition h11_header_name_eq ::
  "u8 list option \<Rightarrow> h11_span_t \<Rightarrow> u8 list option \<Rightarrow> bool option" where
  "h11_header_name_eq base nm cmp =
     (case cmp of
        None \<Rightarrow> Some False
      | Some s \<Rightarrow>
          (case strlen s of
             None \<Rightarrow> None
           | Some n \<Rightarrow> h11_span_eq_case base nm cmp n))"

definition INT_MAX :: int where
  "INT_MAX = 0x7FFFFFFF"

text \<open>
  The loop of \<open>h11_find_header\<close>, with its \<open>u32\<close> counter. \<open>(int)i\<close> reads the
  counter as a signed 32-bit value.
\<close>

function find_header_loop ::
  "h11_header_t list \<Rightarrow> u32 \<Rightarrow> u8 list option \<Rightarrow> u8 list option \<Rightarrow> u32 \<Rightarrow> int option" where
  "find_header_loop hs cnt base nm i =
     (if i < cnt then
        (case read_at hs (unat i) of
           None \<Rightarrow> None
         | Some h \<Rightarrow>
             (case h11_header_name_eq base (name h) nm of
                None \<Rightarrow> None
              | Some True \<Rightarrow> Some (sint i)
              | Some False \<Rightarrow> find_header_loop hs cnt base nm (i + 1)))
      else Some (- 1))"
  by pat_completeness auto
termination
proof (relation "measure (\<lambda>(hs, cnt, base, nm, i). unat cnt - unat i)")
  fix hs :: "h11_header_t list" and cnt i :: u32 and base nm :: "u8 list option"
    and h :: h11_header_t and r :: bool
  assume lt: "i < cnt"
  then have "unat i < unat cnt" by (simp add: word_less_nat_alt)
  moreover have "unat cnt < 2 ^ 32" using unsigned_less [of cnt] by simp
  ultimately have "unat (i + 1) = unat i + 1"
    by (simp add: unat_word_ariths)
  with \<open>unat i < unat cnt\<close>
  show "((hs, cnt, base, nm, i + 1), (hs, cnt, base, nm, i))
        \<in> measure (\<lambda>(hs, cnt, base, nm, i). unat cnt - unat i)"
    by simp
qed simp

definition h11_find_header ::
  "h11_request_t option \<Rightarrow> u8 list option \<Rightarrow> u8 list option \<Rightarrow> int option" where
  "h11_find_header req base nm =
     (case req of
        None \<Rightarrow> Some (- 1)
      | Some r \<Rightarrow>
          if base = None \<or> nm = None then Some (- 1)
          else
            (case headers r of
               None \<Rightarrow> Some (- 1)
             | Some hs \<Rightarrow>
                 if header_count r > word_of_int INT_MAX then Some (- 1)
                 else find_header_loop hs (header_count r) base nm 0))"

section \<open>Vocabulary of the stated properties\<close>

text \<open>
  ASCII lowercasing in the words of the specification: \<open>c | 0x20\<close> exactly when \<open>c\<close> is
  in \<open>'A'\<close> to \<open>'Z'\<close>, every other byte unchanged. It is compared below with
  \<open>h11_ascii_fold\<close> of the source.
\<close>

definition ascii_lowercase :: "u8 \<Rightarrow> u8" where
  "ascii_lowercase c = (if c \<in> {0x41..0x5A} then c OR 0x20 else c)"

text \<open>The bytes \<open>b[s.off .. s.off + s.len)\<close> that a span denotes in a buffer.\<close>

definition span_bytes :: "u8 list \<Rightarrow> h11_span_t \<Rightarrow> u8 list" where
  "span_bytes b s = take (unat (len s)) (drop (unat (off s)) b)"

text \<open>The characters of a C string: the bytes before its first NUL.\<close>

definition cstr_bytes :: "u8 list \<Rightarrow> u8 list" where
  "cstr_bytes n = takeWhile (\<lambda>c. c \<noteq> 0) n"

text \<open>The array that a C string literal denotes: its characters and a closing NUL.\<close>

definition cstr :: "string \<Rightarrow> u8 list" where
  "cstr s = map of_char s @ [0]"

text \<open>Header \<open>j\<close> of the array \<open>hs\<close> matches the name, in the sense of \<open>h11_header_name_eq\<close>.\<close>

definition name_matches ::
  "u8 list option \<Rightarrow> h11_header_t list \<Rightarrow> u8 list option \<Rightarrow> nat \<Rightarrow> bool" where
  "name_matches base hs nm j = (h11_header_name_eq base (name (hs ! j)) nm = Some True)"

text \<open>Every name span of the header array lies within the buffer.\<close>

definition name_spans_within :: "u8 list \<Rightarrow> h11_header_t list \<Rightarrow> bool" where
  "name_spans_within b hs =
     (\<forall>h \<in> set hs. unat (off (name h)) + unat (len (name h)) \<le> length b)"

section \<open>Inputs of the unit tests (test_util.c)\<close>

text \<open>The buffer, the header array and the request of \<open>test_find_header\<close>.\<close>

definition test_find_header_base :: "u8 list" where
  "test_find_header_base =
     cstr ''Host'' @ cstr ''example.com'' @ cstr ''Content-Type'' @ cstr ''text/html'' @
     cstr ''Connection'' @ cstr ''keep-alive'' @ [0]"

definition test_find_header_hdrs :: "h11_header_t list" where
  "test_find_header_hdrs =
     [\<lparr> name = \<lparr>off = 0, len = 4\<rparr>, value = \<lparr>off = 5, len = 11\<rparr>,
        name_id = H11_KHDR_HOST, flags = H11_HEADER_F_KNOWN_NAME \<rparr>,
      \<lparr> name = \<lparr>off = 17, len = 12\<rparr>, value = \<lparr>off = 30, len = 9\<rparr>,
        name_id = H11_INDEX_NONE, flags = 0 \<rparr>,
      \<lparr> name = \<lparr>off = 40, len = 10\<rparr>, value = \<lparr>off = 51, len = 10\<rparr>,
        name_id = H11_KHDR_CONNECTION, flags = H11_HEADER_F_KNOWN_NAME \<rparr>]"

text \<open>Members without an initializer are zero, pointers null.\<close>

definition test_find_header_req :: h11_request_t where
  "test_find_header_req =
     \<lparr> method = \<lparr>off = 0, len = 0\<rparr>, target = \<lparr>off = 0, len = 0\<rparr>,
       content_length = 0, header_count = 3, trailer_count = 0, version = 0,
       target_form = 0, body_type = 0, flags = 0, reserved0 = 0,
       known_idx = [0, 0, 0, 0, 0, 0], reserved1 = 0,
       headers = Some test_find_header_hdrs, trailers = None \<rparr>"

text \<open>
  A request whose header count is \<open>INT_MAX + 1\<close>: \<open>2147483648\<close> copies of the Host
  header of the unit test.
\<close>

definition huge_req :: h11_request_t where
  "huge_req = test_find_header_req
     \<lparr> header_count := 0x80000000,
       headers := Some (replicate 2147483648 (test_find_header_hdrs ! 0)) \<rparr>"

declare span_eq_loop.simps [simp del]
declare find_header_loop.simps [simp del]

section \<open>Properties of the character classifier\<close>

text \<open>A property of all 256 byte values is checked on the list of their indices.\<close>

lemma byte_all: "(\<forall>b::u8. P b) \<longleftrightarrow> (\<forall>n \<in> set [0..<256]. P (of_nat n))"
proof
  assume r: "\<forall>n \<in> set [0..<256]. P (of_nat n)"
  show "\<forall>b::u8. P b"
  proof
    fix b :: u8
    have "unat b < 256" using unsigned_less [of b] by simp
    with r have "P (of_nat (unat b))" by (simp del: of_nat_unat)
    then show "P b" by simp
  qed
qed simp

lemma vchar_all:
  "\<forall>b::u8. h11_is_vchar b \<longleftrightarrow> (b = 0x09 \<or> (0x20 \<le> b \<and> b \<le> 0x7E) \<or> 0x80 \<le> b)"
  unfolding byte_all by code_simp

text \<open>
  Claim C1, as amended: for every byte \<open>b\<close>, \<open>h11_is_vchar b\<close> is true if and only if
  \<open>b\<close> is HTAB (0x09), or lies in 0x20 to 0x7E (SP and the visible characters), or is at
  least 0x80. The table holds the bytes allowed inside a field value, so SP and HTAB are
  members besides the visible characters and obs-text; the unit test of the table
  expects exactly that.
\<close>

theorem h11_is_vchar_iff:
  "h11_is_vchar b \<longleftrightarrow> (b = 0x09 \<or> (0x20 \<le> b \<and> b \<le> 0x7E) \<or> 0x80 \<le> b)"
  using vchar_all by blast

text \<open>
  Claim C1 as stated (true exactly on 0x21 to 0x7E and on 0x80 and above) fails at SP:
  the classifier accepts the byte 0x20, which is in neither range.
\<close>

theorem h11_is_vchar_counterexample:
  "h11_is_vchar 0x20 \<and>
   \<not> ((0x21 \<le> (0x20::u8) \<and> (0x20::u8) \<le> 0x7E) \<or> 0x80 \<le> (0x20::u8))"
  by code_simp

lemma tchar_all:
  "\<forall>b::u8. h11_is_tchar b \<longleftrightarrow>
     (b \<in> {0x21, 0x23, 0x24, 0x25, 0x26, 0x27, 0x2A, 0x2B, 0x2D, 0x2E, 0x5E, 0x5F, 0x60, 0x7C, 0x7E}
      \<or> (0x30 \<le> b \<and> b \<le> 0x39)
      \<or> (0x41 \<le> b \<and> b \<le> 0x5A) \<or> (0x61 \<le> b \<and> b \<le> 0x7A))"
  unfolding byte_all by code_simp

text \<open>
  Claim C6: for every byte \<open>b\<close>, \<open>h11_is_tchar b\<close> is true if and only if \<open>b\<close> is one of
  the fifteen symbols \<^verbatim>\<open>! # $ % & ' * + - . ^ _ ` | ~\<close> (0x21, 0x23, 0x24, 0x25, 0x26,
  0x27, 0x2A, 0x2B, 0x2D, 0x2E, 0x5E, 0x5F, 0x60, 0x7C, 0x7E), a digit (0x30 to 0x39), or
  a letter (0x41 to 0x5A, 0x61 to 0x7A).
\<close>

theorem h11_is_tchar_iff:
  "h11_is_tchar b \<longleftrightarrow>
     (b \<in> {0x21, 0x23, 0x24, 0x25, 0x26, 0x27, 0x2A, 0x2B, 0x2D, 0x2E, 0x5E, 0x5F, 0x60, 0x7C, 0x7E}
      \<or> (0x30 \<le> b \<and> b \<le> 0x39)
      \<or> (0x41 \<le> b \<and> b \<le> 0x5A) \<or> (0x61 \<le> b \<and> b \<le> 0x7A))"
  using tchar_all by blast

lemma uri_all:
  "\<forall>b::u8. h11_is_uri b \<longleftrightarrow>
     ((0x41 \<le> b \<and> b \<le> 0x5A) \<or> (0x61 \<le> b \<and> b \<le> 0x7A) \<or> (0x30 \<le> b \<and> b \<le> 0x39)
      \<or> b \<in> {0x2D, 0x2E, 0x5F, 0x7E}
      \<or> b \<in> {0x21, 0x24, 0x26, 0x27, 0x28, 0x29, 0x2A, 0x2B, 0x2C, 0x3B, 0x3D}
      \<or> b \<in> {0x3A, 0x40, 0x2F, 0x25})"
  unfolding byte_all by code_simp

text \<open>
  Claim C7: for every byte \<open>b\<close>, \<open>h11_is_uri b\<close> is true if and only if \<open>b\<close> is
  unreserved (a letter, a digit, or one of \<^verbatim>\<open>- . _ ~\<close>: 0x2D, 0x2E, 0x5F, 0x7E), a
  sub-delim (\<^verbatim>\<open>! $ & ' ( ) * + , ; =\<close>: 0x21, 0x24, 0x26, 0x27, 0x28, 0x29, 0x2A, 0x2B,
  0x2C, 0x3B, 0x3D), or one of \<^verbatim>\<open>: @ / %\<close> (0x3A, 0x40, 0x2F, 0x25); in particular
  \<^verbatim>\<open>?\<close> (0x3F) and \<^verbatim>\<open>#\<close> (0x23) are not uri-chars.
\<close>

theorem h11_is_uri_iff:
  "(h11_is_uri b \<longleftrightarrow>
     ((0x41 \<le> b \<and> b \<le> 0x5A) \<or> (0x61 \<le> b \<and> b \<le> 0x7A) \<or> (0x30 \<le> b \<and> b \<le> 0x39)
      \<or> b \<in> {0x2D, 0x2E, 0x5F, 0x7E}
      \<or> b \<in> {0x21, 0x24, 0x26, 0x27, 0x28, 0x29, 0x2A, 0x2B, 0x2C, 0x3B, 0x3D}
      \<or> b \<in> {0x3A, 0x40, 0x2F, 0x25}))
   \<and> \<not> h11_is_uri 0x3F \<and> \<not> h11_is_uri 0x23"
proof -
  have "\<not> h11_is_uri 0x3F \<and> \<not> h11_is_uri 0x23" by code_simp
  with uri_all show ?thesis by blast
qed

section \<open>Properties of the hex-nibble decoder\<close>

lemma hexval_all:
  "\<forall>c::u8.
     (0x30 \<le> c \<and> c \<le> 0x39 \<longrightarrow> h11_hexval c = uint c - 0x30) \<and>
     (0x41 \<le> c \<and> c \<le> 0x46 \<longrightarrow> h11_hexval c = 10 + (uint c - 0x41)) \<and>
     (0x61 \<le> c \<and> c \<le> 0x66 \<longrightarrow> h11_hexval c = 10 + (uint c - 0x61)) \<and>
     (\<not> (0x30 \<le> c \<and> c \<le> 0x39) \<and> \<not> (0x41 \<le> c \<and> c \<le> 0x46) \<and>
      \<not> (0x61 \<le> c \<and> c \<le> 0x66) \<longrightarrow> h11_hexval c = - 1)"
  unfolding byte_all by code_simp

text \<open>
  Claim C5: for every byte \<open>c\<close>, \<open>h11_hexval c\<close> is \<open>c - '0'\<close> when \<open>c\<close> is a digit
  (0x30 to 0x39), 10 to 15 for \<open>'A'\<close> to \<open>'F'\<close> (0x41 to 0x46) and for \<open>'a'\<close> to \<open>'f'\<close>
  (0x61 to 0x66) in this order, and \<open>-1\<close> for every other byte. The four cases cover all
  256 byte values, and the decoder has a result on each of them.
\<close>

theorem h11_hexval_spec:
  "(0x30 \<le> c \<and> c \<le> 0x39 \<longrightarrow> h11_hexval c = uint c - 0x30) \<and>
   (0x41 \<le> c \<and> c \<le> 0x46 \<longrightarrow> h11_hexval c = 10 + (uint c - 0x41)) \<and>
   (0x61 \<le> c \<and> c \<le> 0x66 \<longrightarrow> h11_hexval c = 10 + (uint c - 0x61)) \<and>
   (\<not> (0x30 \<le> c \<and> c \<le> 0x39) \<and> \<not> (0x41 \<le> c \<and> c \<le> 0x46) \<and>
    \<not> (0x61 \<le> c \<and> c \<le> 0x66) \<longrightarrow> h11_hexval c = - 1)"
  using hexval_all by blast

theorem h11_hexval_spec_witness:
  "h11_hexval 0x37 = 7 \<and> h11_hexval 0x46 = 15 \<and> h11_hexval 0x61 = 10 \<and>
   h11_hexval 0x47 = - 1 \<and> h11_hexval 0xFF = - 1"
  using h11_hexval_spec [of "0x37"] h11_hexval_spec [of "0x46"] h11_hexval_spec [of "0x61"]
    h11_hexval_spec [of "0x47"] h11_hexval_spec [of "0xFF"]
  by simp

section \<open>Properties of the error catalog\<close>

lemma sint32_uint: "sint (w :: 32 word) = (if uint w < 2 ^ 31 then uint w else uint w - 2 ^ 32)"
proof -
  have b: "uint w < 4294967296" using uint_lt2p [of w] by simp
  have nn: "0 \<le> uint w" by simp
  have s: "sint w = (uint w + 2147483648) mod 4294967296 - 2147483648"
    by (simp add: sint_uint signed_take_bit_eq_take_bit_shift take_bit_eq_mod)
  show ?thesis
  proof (cases "uint w < 2147483648")
    case True
    with nn have "(uint w + 2147483648) mod 4294967296 = uint w + 2147483648"
      by (intro mod_pos_pos_trivial) simp_all
    with s True show ?thesis by simp
  next
    case False
    have "uint w + 2147483648 = (uint w - 2147483648) + 4294967296" by simp
    then have "(uint w + 2147483648) mod 4294967296 = (uint w - 2147483648) mod 4294967296"
      by (simp only: mod_add_self2)
    also from False b have "\<dots> = uint w - 2147483648"
      by (intro mod_pos_pos_trivial) simp_all
    finally show ?thesis using s False by simp
  qed
qed

lemma err_unsigned_test:
  "(e :: 32 word) \<ge> word_of_int H11_ERR__COUNT \<longleftrightarrow> sint e < 0 \<or> H11_ERR__COUNT \<le> sint e"
proof -
  have b: "uint e < 4294967296" using uint_lt2p [of e] by simp
  have nn: "0 \<le> uint e" by simp
  have "(e \<ge> 33) = (33 \<le> uint e)" by (simp add: word_le_def)
  with b nn show ?thesis by (auto simp: H11_ERR__COUNT_def sint32_uint)
qed

lemma error_names_eq: "error_names = map (\<lambda>(e, n, m). Some n) H11_ERROR_LIST"
  by code_simp

lemma error_messages_eq: "error_messages = map (\<lambda>(e, n, m). Some m) H11_ERROR_LIST"
  by code_simp

lemma error_ordinals: "map fst H11_ERROR_LIST = map int [0..<33]"
  by code_simp

lemma error_in_range:
  assumes "(e :: 32 word) < 33"
  shows "\<exists>n m. (sint e, n, m) \<in> set H11_ERROR_LIST \<and>
           h11_error_name e = Some n \<and> h11_error_message e = Some m"
proof -
  from assms have k: "unat e < 33" by (simp add: word_less_nat_alt)
  have len: "length H11_ERROR_LIST = 33"
    using arg_cong [OF error_ordinals, of length] by simp
  obtain c n m where entry: "H11_ERROR_LIST ! unat e = (c, n, m)"
    by (cases "H11_ERROR_LIST ! unat e") blast
  have "c = fst (H11_ERROR_LIST ! unat e)" using entry by simp
  also have "\<dots> = map fst H11_ERROR_LIST ! unat e" using k len by simp
  also have "\<dots> = int (unat e)" using k by (simp only: error_ordinals) simp
  finally have c: "c = uint e" by simp
  have "uint e = int (unat e)" by simp
  with k have "uint e < 2147483648" by linarith
  then have "sint e = uint e" by (simp add: sint32_uint)
  with c have c': "c = sint e" by simp
  have mem: "(c, n, m) \<in> set H11_ERROR_LIST"
    using entry k len nth_mem [of "unat e" H11_ERROR_LIST] by simp
  have "\<not> e \<ge> word_of_int H11_ERR__COUNT" using assms by (simp add: H11_ERR__COUNT_def)
  then have "h11_error_name e = Some n" "h11_error_message e = Some m"
    using entry k len
    by (simp_all add: h11_error_name_def h11_error_message_def error_names_eq error_messages_eq)
  with mem c' show ?thesis by blast
qed

text \<open>
  Claim C8: for every status ordinal \<open>e\<close>, \<open>h11_error_name e\<close> and
  \<open>h11_error_message e\<close> are non-null strings. For \<open>0 \<le> e < H11_ERR__COUNT\<close> they are
  the symbolic name and the message that the error list gives for the enumerator with
  ordinal \<open>e\<close> (the list names every ordinal once); for a negative \<open>e\<close> and for
  \<open>e \<ge> H11_ERR__COUNT\<close> both are \<open>"UNKNOWN"\<close>.
\<close>

theorem h11_error_strings:
  "h11_error_name e \<noteq> None \<and> h11_error_message e \<noteq> None \<and>
   (0 \<le> sint e \<and> sint e < H11_ERR__COUNT \<longrightarrow>
      (\<exists>n m. (sint e, n, m) \<in> set H11_ERROR_LIST \<and>
         h11_error_name e = Some n \<and> h11_error_message e = Some m)) \<and>
   (sint e < 0 \<or> H11_ERR__COUNT \<le> sint e \<longrightarrow>
      h11_error_name e = Some ''UNKNOWN'' \<and> h11_error_message e = Some ''UNKNOWN'') \<and>
   distinct (map fst H11_ERROR_LIST)"
proof (cases "e \<ge> word_of_int H11_ERR__COUNT")
  case True
  then have "h11_error_name e = Some ''UNKNOWN''" "h11_error_message e = Some ''UNKNOWN''"
    by (simp_all add: h11_error_name_def h11_error_message_def)
  moreover from True have "\<not> (0 \<le> sint e \<and> sint e < H11_ERR__COUNT)"
    using err_unsigned_test [of e] by auto
  moreover have "distinct (map fst H11_ERROR_LIST)"
    by (simp only: error_ordinals) (simp add: distinct_map)
  ultimately show ?thesis by blast
next
  case False
  then have lt: "e < 33" by (simp add: H11_ERR__COUNT_def not_le)
  from False have r: "\<not> (sint e < 0 \<or> H11_ERR__COUNT \<le> sint e)"
    using err_unsigned_test [of e] by simp
  have "distinct (map fst H11_ERROR_LIST)"
    by (simp only: error_ordinals) (simp add: distinct_map)
  with error_in_range [OF lt] r show ?thesis by auto
qed

theorem h11_error_strings_witness:
  "h11_error_name 2 = Some ''H11_ERR_INVALID_METHOD'' \<and>
   h11_error_message 2 = Some ''Invalid HTTP method'' \<and>
   h11_error_name (- 1) = Some ''UNKNOWN'' \<and> h11_error_message 999 = Some ''UNKNOWN''"
proof -
  have a: "H11_ERR__COUNT \<le> sint (999 :: 32 word)" by (simp add: H11_ERR__COUNT_def)
  have b: "sint (- 1 :: 32 word) < 0" by simp
  have c: "0 \<le> sint (2 :: 32 word) \<and> sint (2 :: 32 word) < H11_ERR__COUNT"
    by (simp add: H11_ERR__COUNT_def)
  from h11_error_strings [of 2] c
  obtain n m where "(sint (2 :: 32 word), n, m) \<in> set H11_ERROR_LIST"
    and nm: "h11_error_name 2 = Some n" "h11_error_message 2 = Some m" by blast
  then have "(2, n, m) \<in> set H11_ERROR_LIST" by simp
  then have "n = ''H11_ERR_INVALID_METHOD'' \<and> m = ''Invalid HTTP method''"
    by (simp add: H11_ERROR_LIST_def H11_OK_def H11_NEED_MORE_DATA_def H11_ERR_INVALID_METHOD_def
      H11_ERR_INVALID_TARGET_def H11_ERR_INVALID_VERSION_def H11_ERR_REQUEST_LINE_TOO_LONG_def
      H11_ERR_INVALID_CRLF_def H11_ERR_INVALID_HEADER_NAME_def H11_ERR_INVALID_HEADER_VALUE_def
      H11_ERR_HEADER_LINE_TOO_LONG_def H11_ERR_TOO_MANY_HEADERS_def H11_ERR_HEADERS_TOO_LARGE_def
      H11_ERR_OBS_FOLD_REJECTED_def H11_ERR_LEADING_WHITESPACE_def H11_ERR_MISSING_HOST_def
      H11_ERR_MULTIPLE_HOST_def H11_ERR_INVALID_HOST_def H11_ERR_INVALID_CONTENT_LENGTH_def
      H11_ERR_MULTIPLE_CONTENT_LENGTH_def H11_ERR_CONTENT_LENGTH_OVERFLOW_def
      H11_ERR_INVALID_TRANSFER_ENCODING_def H11_ERR_TE_NOT_CHUNKED_FINAL_def
      H11_ERR_TE_CL_CONFLICT_def H11_ERR_UNKNOWN_TRANSFER_CODING_def H11_ERR_BODY_TOO_LARGE_def
      H11_ERR_INVALID_CHUNK_SIZE_def H11_ERR_CHUNK_SIZE_OVERFLOW_def H11_ERR_INVALID_CHUNK_EXT_def
      H11_ERR_CHUNK_EXT_TOO_LONG_def H11_ERR_INVALID_CHUNK_DATA_def H11_ERR_INVALID_TRAILER_def
      H11_ERR_CONNECTION_CLOSED_def H11_ERR_INTERNAL_def)
  with nm h11_error_strings [of "- 1"] h11_error_strings [of 999] a b show ?thesis by simp
qed

section \<open>Properties of the default configuration\<close>

text \<open>
  Claim C3: \<open>h11_config_default\<close> has \<open>max_body_size = UINT64_MAX\<close> (no 64-bit size
  exceeds it), request-line and header-line limits of 8192, a header-section limit of
  65536, at most 100 headers, a chunk-extension limit of 1024, and flags in which
  STRICT_CRLF, REJECT_OBS_FOLD, ALLOW_OBS_TEXT, ALLOW_LEADING_CRLF and
  REJECT_TE_CL_CONFLICT are set and TOLERATE_SPACES is clear.
\<close>

theorem h11_config_default_values:
  "max_body_size h11_config_default = UINT64_MAX \<and>
   (\<forall>n::u64. n \<le> max_body_size h11_config_default) \<and>
   max_request_line_len h11_config_default = 8192 \<and>
   max_header_line_len h11_config_default = 8192 \<and>
   max_headers_size h11_config_default = 65536 \<and>
   max_header_count h11_config_default = 100 \<and>
   max_chunk_ext_len h11_config_default = 1024 \<and>
   h11_config_t.flags h11_config_default AND H11_CFG_STRICT_CRLF \<noteq> 0 \<and>
   h11_config_t.flags h11_config_default AND H11_CFG_REJECT_OBS_FOLD \<noteq> 0 \<and>
   h11_config_t.flags h11_config_default AND H11_CFG_ALLOW_OBS_TEXT \<noteq> 0 \<and>
   h11_config_t.flags h11_config_default AND H11_CFG_ALLOW_LEADING_CRLF \<noteq> 0 \<and>
   h11_config_t.flags h11_config_default AND H11_CFG_REJECT_TE_CL_CONFLICT \<noteq> 0 \<and>
   h11_config_t.flags h11_config_default AND H11_CFG_TOLERATE_SPACES = 0"
proof -
  have top: "UINT64_MAX = - 1" by (simp add: UINT64_MAX_def)
  show ?thesis
    by (simp add: h11_config_default_def top H11_CFG_STRICT_CRLF_def H11_CFG_REJECT_OBS_FOLD_def
      H11_CFG_ALLOW_OBS_TEXT_def H11_CFG_ALLOW_LEADING_CRLF_def H11_CFG_TOLERATE_SPACES_def
      H11_CFG_REJECT_TE_CL_CONFLICT_def)
qed

section \<open>Properties of the case-insensitive comparison\<close>

lemma fold_is_lowercase: "h11_ascii_fold c = ascii_lowercase c"
  by (simp add: h11_ascii_fold_def ascii_lowercase_def)

lemma span_eq_loop_spec:
  assumes "blen \<le> length ap" and "blen \<le> length bp" and "i \<le> blen"
  shows "span_eq_loop ap bp blen i =
           Some (map h11_ascii_fold (drop i (take blen ap)) =
                 map h11_ascii_fold (drop i (take blen bp)))"
  using assms
proof (induction ap bp blen i rule: span_eq_loop.induct)
  case (1 ap bp blen i)
  show ?case
  proof (cases "i < blen")
    case False
    with "1.prems" have "i = blen" by simp
    then show ?thesis by (subst span_eq_loop.simps) simp
  next
    case True
    with "1.prems" have ia: "i < length ap" and ib: "i < length bp" by simp_all
    have ra: "read_at ap i = Some (ap ! i)" and rb: "read_at bp i = Some (bp ! i)"
      using ia ib by (simp_all add: read_at_def)
    have da: "drop i (take blen ap) = ap ! i # drop (Suc i) (take blen ap)"
      using True ia by (simp add: Cons_nth_drop_Suc [symmetric])
    have db: "drop i (take blen bp) = bp ! i # drop (Suc i) (take blen bp)"
      using True ib by (simp add: Cons_nth_drop_Suc [symmetric])
    show ?thesis
    proof (cases "h11_ascii_fold (ap ! i) = h11_ascii_fold (bp ! i)")
      case False
      then show ?thesis
        using True ra rb da db by (simp add: span_eq_loop.simps [of ap bp blen i])
    next
      case eq: True
      have "span_eq_loop ap bp blen (Suc i) =
              Some (map h11_ascii_fold (drop (Suc i) (take blen ap)) =
                    map h11_ascii_fold (drop (Suc i) (take blen bp)))"
        using "1.IH" [OF True ra rb] eq "1.prems" True by simp
      then show ?thesis
        using True ra rb da db eq by (simp add: span_eq_loop.simps [of ap bp blen i])
    qed
  qed
qed

lemma strlen_Cons_nonzero:
  "c \<noteq> 0 \<Longrightarrow> strlen cs = Some k \<Longrightarrow> strlen (c # cs) = Some (Suc k)"
  by simp

lemma strlen_spec: "0 \<in> set s \<Longrightarrow> strlen s = Some (length (takeWhile (\<lambda>c. c \<noteq> 0) s))"
proof (induction s)
  case Nil
  then show ?case by simp
next
  case (Cons c cs)
  show ?case
  proof (cases "c = 0")
    case True
    then show ?thesis by simp
  next
    case False
    with Cons.prems have "0 \<in> set cs" by (simp only: set_simps insert_iff) blast
    then have "strlen cs = Some (length (takeWhile (\<lambda>c. c \<noteq> 0) cs))" by (rule Cons.IH)
    with False have "strlen (c # cs) = Some (Suc (length (takeWhile (\<lambda>c. c \<noteq> 0) cs)))"
      by (rule strlen_Cons_nonzero)
    moreover from False
    have "length (takeWhile (\<lambda>c. c \<noteq> 0) (c # cs)) = Suc (length (takeWhile (\<lambda>c. c \<noteq> 0) cs))"
      by simp
    ultimately show ?thesis by (simp only:)
  qed
qed

lemma cstr_take: "takeWhile (\<lambda>c. c \<noteq> 0) s = take (length (takeWhile (\<lambda>c. c \<noteq> 0) s)) s"
  by (rule takeWhile_eq_take)

lemma header_name_eq_value:
  assumes within: "unat (off s) + unat (len s) \<le> length b"
    and nul: "0 \<in> set n"
  shows "h11_header_name_eq (Some b) s (Some n) =
           Some (map ascii_lowercase (span_bytes b s) = map ascii_lowercase (cstr_bytes n))
         \<and> (h11_header_name_eq (Some b) s (Some n) = Some True \<longrightarrow>
              unat (len s) = length (cstr_bytes n))"
proof -
  let ?k = "length (cstr_bytes n)"
  have sl: "strlen n = Some ?k" using nul by (simp add: strlen_spec cstr_bytes_def)
  have kn: "?k \<le> length n" by (simp add: cstr_bytes_def length_takeWhile_le)
  have ln: "length (span_bytes b s) = unat (len s)"
    using within by (simp add: span_bytes_def)
  have main: "h11_header_name_eq (Some b) s (Some n) =
           Some (map ascii_lowercase (span_bytes b s) = map ascii_lowercase (cstr_bytes n))"
  proof (cases "unat (len s) = ?k")
    case False
    then have "h11_header_name_eq (Some b) s (Some n) = Some False"
      using sl by (simp add: h11_header_name_eq_def h11_span_eq_case_def)
    moreover have "map ascii_lowercase (span_bytes b s) \<noteq> map ascii_lowercase (cstr_bytes n)"
    proof
      assume "map ascii_lowercase (span_bytes b s) = map ascii_lowercase (cstr_bytes n)"
      then have "length (span_bytes b s) = ?k" using map_eq_imp_length_eq by blast
      with ln False show False by simp
    qed
    ultimately show ?thesis by simp
  next
    case True
    have "?k \<le> length (drop (unat (off s)) b)" using within True by simp
    then have "span_eq_loop (drop (unat (off s)) b) n ?k 0 =
        Some (map h11_ascii_fold (drop 0 (take ?k (drop (unat (off s)) b))) =
              map h11_ascii_fold (drop 0 (take ?k n)))"
      using kn by (intro span_eq_loop_spec) simp_all
    moreover have "take ?k n = cstr_bytes n"
      unfolding cstr_bytes_def by (rule cstr_take [symmetric])
    moreover have "take ?k (drop (unat (off s)) b) = span_bytes b s"
      using True by (simp add: span_bytes_def)
    moreover have "h11_ascii_fold = ascii_lowercase" by (rule ext) (rule fold_is_lowercase)
    ultimately show ?thesis
      using sl True by (simp add: h11_header_name_eq_def h11_span_eq_case_def)
  qed
  moreover have "h11_header_name_eq (Some b) s (Some n) = Some True \<longrightarrow> unat (len s) = ?k"
  proof
    assume "h11_header_name_eq (Some b) s (Some n) = Some True"
    with main have "map ascii_lowercase (span_bytes b s) = map ascii_lowercase (cstr_bytes n)"
      by simp
    then have "length (span_bytes b s) = ?k" using map_eq_imp_length_eq by blast
    with ln show "unat (len s) = ?k" by simp
  qed
  ultimately show ?thesis by simp
qed

text \<open>
  Claim C2: for every base buffer \<open>b\<close>, span \<open>s\<close> within it and C string \<open>n\<close>,
  \<open>h11_header_name_eq b s n\<close> returns true if and only if the ASCII-lowercased bytes
  \<open>b[s.off .. s.off + s.len)\<close> equal the ASCII-lowercased characters of \<open>n\<close>; a true
  result needs \<open>s.len\<close> equal to the length of \<open>n\<close>. Lowercasing is \<open>ascii_lowercase\<close>:
  \<open>c | 0x20\<close> exactly for \<open>c\<close> in \<open>'A'\<close> to \<open>'Z'\<close>, with which the fold of the source
  agrees on every byte.
\<close>

theorem h11_header_name_eq_iff:
  assumes "unat (off s) + unat (len s) \<le> length b" and "0 \<in> set n"
  shows "h11_header_name_eq (Some b) s (Some n) =
           Some (map ascii_lowercase (span_bytes b s) = map ascii_lowercase (cstr_bytes n))
         \<and> (h11_header_name_eq (Some b) s (Some n) = Some True \<longrightarrow>
              unat (len s) = length (cstr_bytes n))
         \<and> h11_ascii_fold c = ascii_lowercase c"
  using header_name_eq_value [OF assms] fold_is_lowercase [of c] by simp

theorem h11_header_name_eq_iff_witness:
  "h11_header_name_eq (Some (cstr ''Content-Length'')) \<lparr>off = 0, len = 14\<rparr> (Some (cstr ''CONTENT-LENGTH''))
     = Some True \<and>
   h11_header_name_eq (Some (cstr ''Content-Length'')) \<lparr>off = 0, len = 14\<rparr> (Some (cstr ''content-type''))
     = Some False"
proof -
  let ?b = "cstr ''Content-Length''" and ?s = "\<lparr>off = 0, len = 14\<rparr>"
  have w: "unat (off ?s) + unat (len ?s) \<le> length ?b" by (simp add: cstr_def)
  have n1: "0 \<in> set (cstr ''CONTENT-LENGTH'')" and n2: "0 \<in> set (cstr ''content-type'')"
    by (simp_all add: cstr_def)
  have e1: "(map ascii_lowercase (span_bytes ?b ?s) = map ascii_lowercase (cstr_bytes (cstr ''CONTENT-LENGTH''))) = True"
    by code_simp
  have e2: "(map ascii_lowercase (span_bytes ?b ?s) = map ascii_lowercase (cstr_bytes (cstr ''content-type''))) = False"
    by code_simp
  show ?thesis
    using h11_header_name_eq_iff [OF w n1, where c = 0] h11_header_name_eq_iff [OF w n2, where c = 0]
    by (simp only: e1 e2)
qed

section \<open>Properties of the header lookup\<close>

lemma unat_succ_below:
  assumes "(i :: u32) < cnt"
  shows "unat (i + 1) = Suc (unat i)" and "unat i < unat cnt"
proof -
  from assms show lt: "unat i < unat cnt" by (simp add: word_less_nat_alt)
  have "unat cnt < 2 ^ 32" using unsigned_less [of cnt] by simp
  with lt show "unat (i + 1) = Suc (unat i)" by (simp add: unat_word_ariths)
qed

lemma find_header_loop_result:
  assumes "find_header_loop hs cnt base nm i = Some r"
  shows "(r = - 1 \<and> (\<forall>j. unat i \<le> j \<and> j < unat cnt \<longrightarrow> \<not> name_matches base hs nm j)) \<or>
         (\<exists>k::u32. unat i \<le> unat k \<and> unat k < unat cnt \<and> unat k < length hs \<and> r = sint k \<and>
              name_matches base hs nm (unat k) \<and>
              (\<forall>j. unat i \<le> j \<and> j < unat k \<longrightarrow> \<not> name_matches base hs nm j))"
  using assms
proof (induction hs cnt base nm i rule: find_header_loop.induct)
  case (1 hs cnt base nm i)
  show ?case
  proof (cases "i < cnt")
    case False
    then have "\<not> unat i < unat cnt" by (simp add: word_less_nat_alt)
    moreover from False "1.prems" have "r = - 1"
      by (simp add: find_header_loop.simps [of hs cnt base nm i])
    ultimately show ?thesis by auto
  next
    case True
    note s = unat_succ_below [OF True]
    from True "1.prems" obtain h where rd: "read_at hs (unat i) = Some h"
      by (auto simp: find_header_loop.simps [of hs cnt base nm i] split: option.splits)
    then have il: "unat i < length hs" and h: "h = hs ! unat i"
      by (auto simp: read_at_def split: if_splits)
    from True "1.prems" rd obtain m where m: "h11_header_name_eq base (name h) nm = Some m"
      by (auto simp: find_header_loop.simps [of hs cnt base nm i] split: option.splits)
    show ?thesis
    proof (cases m)
      case True
      with \<open>i < cnt\<close> "1.prems" rd m have "r = sint i"
        by (simp add: find_header_loop.simps [of hs cnt base nm i])
      moreover have "name_matches base hs nm (unat i)"
        using m True h by (simp add: name_matches_def)
      ultimately have "unat i \<le> unat i \<and> unat i < unat cnt \<and> unat i < length hs \<and> r = sint i \<and>
              name_matches base hs nm (unat i) \<and>
              (\<forall>j. unat i \<le> j \<and> j < unat i \<longrightarrow> \<not> name_matches base hs nm j)"
        using s il by auto
      then show ?thesis by blast
    next
      case False
      with \<open>i < cnt\<close> "1.prems" rd m have "find_header_loop hs cnt base nm (i + 1) = Some r"
        by (simp add: find_header_loop.simps [of hs cnt base nm i])
      from "1.IH" [OF \<open>i < cnt\<close> rd m _ this] False
      have IH: "(r = - 1 \<and> (\<forall>j. unat (i + 1) \<le> j \<and> j < unat cnt \<longrightarrow> \<not> name_matches base hs nm j)) \<or>
         (\<exists>k::u32. unat (i + 1) \<le> unat k \<and> unat k < unat cnt \<and> unat k < length hs \<and> r = sint k \<and>
              name_matches base hs nm (unat k) \<and>
              (\<forall>j. unat (i + 1) \<le> j \<and> j < unat k \<longrightarrow> \<not> name_matches base hs nm j))"
        by simp
      have nm: "\<not> name_matches base hs nm (unat i)"
        using m False h by (simp add: name_matches_def)
      have step: "\<And>j. unat i \<le> j \<Longrightarrow> j = unat i \<or> Suc (unat i) \<le> j" by arith
      from IH show ?thesis
      proof (elim disjE conjE exE)
        assume "r = - 1" and a: "\<forall>j. unat (i + 1) \<le> j \<and> j < unat cnt \<longrightarrow> \<not> name_matches base hs nm j"
        have "\<forall>j. unat i \<le> j \<and> j < unat cnt \<longrightarrow> \<not> name_matches base hs nm j"
          using a nm step s(1) by metis
        with \<open>r = - 1\<close> show ?thesis by blast
      next
        fix k :: u32
        assume k: "unat (i + 1) \<le> unat k" "unat k < unat cnt" "unat k < length hs" "r = sint k"
          "name_matches base hs nm (unat k)"
          and a: "\<forall>j. unat (i + 1) \<le> j \<and> j < unat k \<longrightarrow> \<not> name_matches base hs nm j"
        have "\<forall>j. unat i \<le> j \<and> j < unat k \<longrightarrow> \<not> name_matches base hs nm j"
          using a nm step s(1) by metis
        moreover have "unat i \<le> unat k" using k(1) s(1) by simp
        ultimately show ?thesis using k by blast
      qed
    qed
  qed
qed

lemma find_header_loop_defined:
  assumes "unat cnt \<le> length hs"
    and "\<forall>j < unat cnt. h11_header_name_eq base (name (hs ! j)) nm \<noteq> None"
  shows "\<exists>r. find_header_loop hs cnt base nm i = Some r"
  using assms
proof (induction hs cnt base nm i rule: find_header_loop.induct)
  case (1 hs cnt base nm i)
  show ?case
  proof (cases "i < cnt")
    case False
    then show ?thesis by (simp add: find_header_loop.simps [of hs cnt base nm i])
  next
    case True
    note s = unat_succ_below [OF True]
    from s(2) "1.prems"(1) have rd: "read_at hs (unat i) = Some (hs ! unat i)"
      by (simp add: read_at_def)
    from s(2) "1.prems"(2) obtain m where m: "h11_header_name_eq base (name (hs ! unat i)) nm = Some m"
      by auto
    show ?thesis
    proof (cases m)
      case True
      with \<open>i < cnt\<close> rd m show ?thesis
        by (simp add: find_header_loop.simps [of hs cnt base nm i])
    next
      case False
      from "1.IH" [OF \<open>i < cnt\<close> rd m _ "1.prems"] False
      have "\<exists>r. find_header_loop hs cnt base nm (i + 1) = Some r" by simp
      with \<open>i < cnt\<close> rd m False show ?thesis
        by (simp add: find_header_loop.simps [of hs cnt base nm i])
    qed
  qed
qed

lemma int_max_guard:
  "(header_count req > word_of_int INT_MAX) \<longleftrightarrow> INT_MAX < uint (header_count req)"
  by (simp add: INT_MAX_def word_less_def)

lemma find_header_unfold:
  assumes "headers req = Some hs" and "uint (header_count req) \<le> INT_MAX"
  shows "h11_find_header (Some req) (Some b) (Some n) =
           find_header_loop hs (header_count req) (Some b) (Some n) 0"
  using assms by (simp add: h11_find_header_def int_max_guard)

lemma name_eq_defined:
  assumes "name_spans_within b hs" and "0 \<in> set n" and "j < length hs"
  shows "h11_header_name_eq (Some b) (name (hs ! j)) (Some n) \<noteq> None"
proof -
  from assms(1,3) have "unat (off (name (hs ! j))) + unat (len (name (hs ! j))) \<le> length b"
    by (simp add: name_spans_within_def)
  from header_name_eq_value [OF this assms(2)] show ?thesis by simp
qed

lemma sint_small:
  assumes "uint (k :: u32) \<le> INT_MAX"
  shows "sint k = int (unat k)"
proof -
  from assms have "uint k < 2147483648" by (simp add: INT_MAX_def)
  then have "sint k = uint k" by (simp add: sint32_uint)
  then show ?thesis by simp
qed

lemma find_header_cases:
  assumes bound: "uint (header_count req) \<le> INT_MAX"
    and hs: "headers req = Some hs" and len: "length hs = unat (header_count req)"
    and within: "name_spans_within b hs" and nul: "0 \<in> set n"
  shows "(\<exists>i < length hs. name_matches (Some b) hs (Some n) i \<and>
             (\<forall>j < i. \<not> name_matches (Some b) hs (Some n) j) \<and>
             h11_find_header (Some req) (Some b) (Some n) = Some (int i)) \<or>
         ((\<forall>j < length hs. \<not> name_matches (Some b) hs (Some n) j) \<and>
          h11_find_header (Some req) (Some b) (Some n) = Some (- 1))"
proof -
  let ?cnt = "header_count req"
  have unf: "h11_find_header (Some req) (Some b) (Some n) =
               find_header_loop hs ?cnt (Some b) (Some n) 0"
    using hs bound by (rule find_header_unfold)
  have "\<forall>j < unat ?cnt. h11_header_name_eq (Some b) (name (hs ! j)) (Some n) \<noteq> None"
    using name_eq_defined [OF within nul] len by simp
  with len obtain r where r: "find_header_loop hs ?cnt (Some b) (Some n) 0 = Some r"
    using find_header_loop_defined [of ?cnt hs "Some b" "Some n" 0] by auto
  from find_header_loop_result [OF r] show ?thesis
  proof (elim disjE conjE exE)
    assume "r = - 1"
      and "\<forall>j. unat (0 :: u32) \<le> j \<and> j < unat ?cnt \<longrightarrow> \<not> name_matches (Some b) hs (Some n) j"
    then have "(\<forall>j < length hs. \<not> name_matches (Some b) hs (Some n) j) \<and>
          h11_find_header (Some req) (Some b) (Some n) = Some (- 1)"
      using unf r len by simp
    then show ?thesis by blast
  next
    fix k :: u32
    assume k: "unat k < unat ?cnt" "unat k < length hs" "r = sint k"
        "name_matches (Some b) hs (Some n) (unat k)"
      and first: "\<forall>j. unat (0 :: u32) \<le> j \<and> j < unat k \<longrightarrow> \<not> name_matches (Some b) hs (Some n) j"
    from k(1) have "k < ?cnt" by (simp add: word_less_nat_alt)
    then have "uint k < uint ?cnt" by (simp add: word_less_def)
    with bound have "uint k \<le> INT_MAX" by simp
    then have "sint k = int (unat k)" by (rule sint_small)
    with k(3) unf r have "h11_find_header (Some req) (Some b) (Some n) = Some (int (unat k))"
      by simp
    with k(2,4) first
    have "unat k < length hs \<and> name_matches (Some b) hs (Some n) (unat k) \<and>
             (\<forall>j < unat k. \<not> name_matches (Some b) hs (Some n) j) \<and>
             h11_find_header (Some req) (Some b) (Some n) = Some (int (unat k))"
      by simp
    then show ?thesis by blast
  qed
qed

text \<open>
  Claim C4, as amended: for every request record with \<open>header_count \<le> INT_MAX\<close>, header
  list of length \<open>header_count\<close>, base buffer (holding every name span) and non-null
  name, \<open>h11_find_header\<close> returns the smallest index \<open>i < header_count\<close> whose name span
  matches the name case-insensitively (per \<open>h11_header_name_eq\<close>), and returns \<open>-1\<close>
  when no header matches.
\<close>

theorem h11_find_header_first_match:
  assumes "uint (header_count req) \<le> INT_MAX"
    and "headers req = Some hs" and "length hs = unat (header_count req)"
    and "name_spans_within b hs" and "0 \<in> set n"
  shows "(\<exists>i < length hs. name_matches (Some b) hs (Some n) i \<and>
             (\<forall>j < i. \<not> name_matches (Some b) hs (Some n) j) \<and>
             h11_find_header (Some req) (Some b) (Some n) = Some (int i)) \<or>
         ((\<forall>j < length hs. \<not> name_matches (Some b) hs (Some n) j) \<and>
          h11_find_header (Some req) (Some b) (Some n) = Some (- 1))"
  using assms by (rule find_header_cases)

theorem h11_find_header_first_match_witness:
  "h11_find_header (Some test_find_header_req) (Some test_find_header_base)
     (Some (cstr ''content-type'')) = Some 1 \<and>
   h11_find_header (Some test_find_header_req) (Some test_find_header_base)
     (Some (cstr ''x-missing'')) = Some (- 1)"
proof -
  let ?b = test_find_header_base and ?hs = test_find_header_hdrs
  have a1: "uint (header_count test_find_header_req) \<le> INT_MAX"
    by (simp add: test_find_header_req_def INT_MAX_def)
  have a2: "headers test_find_header_req = Some ?hs"
    by (simp add: test_find_header_req_def)
  have a3: "length ?hs = unat (header_count test_find_header_req)"
    by (simp add: test_find_header_req_def test_find_header_hdrs_def)
  have l3: "length ?hs = 3" by (simp add: test_find_header_hdrs_def)
  have a4: "name_spans_within ?b ?hs" by code_simp
  have n1: "0 \<in> set (cstr ''content-type'')" and n2: "0 \<in> set (cstr ''x-missing'')"
    by (simp_all add: cstr_def)
  have m0: "\<not> name_matches (Some ?b) ?hs (Some (cstr ''content-type'')) 0" by code_simp
  have m1: "name_matches (Some ?b) ?hs (Some (cstr ''content-type'')) 1" by code_simp
  have x0: "\<not> name_matches (Some ?b) ?hs (Some (cstr ''x-missing'')) 0" by code_simp
  have x1: "\<not> name_matches (Some ?b) ?hs (Some (cstr ''x-missing'')) 1" by code_simp
  have x2: "\<not> name_matches (Some ?b) ?hs (Some (cstr ''x-missing'')) 2" by code_simp
  have small: "\<And>i::nat. i < 3 \<Longrightarrow> i = 0 \<or> i = 1 \<or> i = 2" by arith
  have "h11_find_header (Some test_find_header_req) (Some ?b) (Some (cstr ''content-type'')) = Some 1"
    using h11_find_header_first_match [OF a1 a2 a3 a4 n1]
  proof (elim disjE conjE exE)
    fix i
    assume i: "i < length ?hs" "name_matches (Some ?b) ?hs (Some (cstr ''content-type'')) i"
      "\<forall>j<i. \<not> name_matches (Some ?b) ?hs (Some (cstr ''content-type'')) j"
      and res: "h11_find_header (Some test_find_header_req) (Some ?b) (Some (cstr ''content-type'')) = Some (int i)"
    from i(1) l3 small have "i = 0 \<or> i = 1 \<or> i = 2" by simp
    with i(2,3) m0 m1 have "i = 1" by auto
    with res show ?thesis by simp
  next
    assume "\<forall>j<length ?hs. \<not> name_matches (Some ?b) ?hs (Some (cstr ''content-type'')) j"
    with m1 l3 show ?thesis by simp
  qed
  moreover
  have "h11_find_header (Some test_find_header_req) (Some ?b) (Some (cstr ''x-missing'')) = Some (- 1)"
    using h11_find_header_first_match [OF a1 a2 a3 a4 n2]
  proof (elim disjE conjE exE)
    fix i
    assume i: "i < length ?hs" "name_matches (Some ?b) ?hs (Some (cstr ''x-missing'')) i"
    from i(1) l3 small have "i = 0 \<or> i = 1 \<or> i = 2" by simp
    with i(2) x0 x1 x2 show ?thesis by auto
  qed
  ultimately show ?thesis by simp
qed

text \<open>
  Claim C4 as stated, for every request record, fails above \<open>INT_MAX\<close>: with
  \<open>header_count = 2147483648\<close> the header at index 0 matches \<open>"host"\<close>, and the result is
  \<open>-1\<close>, because the count is rejected before the scan.
\<close>

theorem h11_find_header_first_match_counterexample:
  "length (the (headers huge_req)) = unat (header_count huge_req) \<and>
   name_matches (Some test_find_header_base) (the (headers huge_req)) (Some (cstr ''host'')) 0 \<and>
   h11_find_header (Some huge_req) (Some test_find_header_base) (Some (cstr ''host'')) = Some (- 1)"
proof -
  have h0: "the (headers huge_req) ! 0 = test_find_header_hdrs ! 0"
    by (simp add: huge_req_def)
  have "h11_header_name_eq (Some test_find_header_base) (name (test_find_header_hdrs ! 0))
          (Some (cstr ''host'')) = Some True"
    by code_simp
  then have "name_matches (Some test_find_header_base) (the (headers huge_req)) (Some (cstr ''host'')) 0"
    by (simp only: name_matches_def h0)
  moreover have "length (the (headers huge_req)) = unat (header_count huge_req)"
    by (simp add: huge_req_def)
  moreover have "h11_find_header (Some huge_req) (Some test_find_header_base) (Some (cstr ''host'')) = Some (- 1)"
    by (simp add: h11_find_header_def huge_req_def INT_MAX_def)
  ultimately show ?thesis by simp
qed

text \<open>
  Claim C9: the lookup and comparison operations return on null inputs.
  \<open>h11_span_eq_case\<close> returns false when \<open>base\<close> or the compared string is null,
  \<open>h11_header_name_eq\<close> returns false when \<open>cmp\<close> is null, and \<open>h11_find_header\<close>
  returns \<open>-1\<close> when the request, the base, the name or the request's \<open>headers\<close>
  pointer is null; none of these results is the undefined \<open>None\<close> of a null dereference.
\<close>

theorem h11_null_inputs:
  "h11_span_eq_case None a b blen = Some False \<and>
   h11_span_eq_case base a None blen = Some False \<and>
   h11_header_name_eq base nm None = Some False \<and>
   h11_find_header None base cmp = Some (- 1) \<and>
   h11_find_header reqp None cmp = Some (- 1) \<and>
   h11_find_header reqp base None = Some (- 1) \<and>
   h11_find_header (Some (req\<lparr>headers := None\<rparr>)) base cmp = Some (- 1)"
  by (intro conjI)
    (simp_all add: h11_span_eq_case_def h11_header_name_eq_def h11_find_header_def
      split: option.splits)

theorem h11_null_inputs_witness:
  "h11_span_eq_case None \<lparr>off = 0, len = 3\<rparr> (Some (cstr ''a_b'')) 3 = Some False \<and>
   h11_header_name_eq (Some (cstr ''Content-Length'')) \<lparr>off = 0, len = 14\<rparr> None = Some False \<and>
   h11_find_header None (Some (cstr [])) (Some (cstr ''Host'')) = Some (- 1) \<and>
   h11_find_header (Some test_find_header_req) None (Some (cstr ''Host'')) = Some (- 1) \<and>
   h11_find_header (Some test_find_header_req) (Some (cstr [])) None = Some (- 1) \<and>
   h11_find_header (Some (test_find_header_req\<lparr>headers := None\<rparr>)) (Some (cstr []))
     (Some (cstr ''Host'')) = Some (- 1)"
  using h11_null_inputs [where a = "\<lparr>off = 0, len = 3\<rparr>" and b = "Some (cstr ''a_b'')"
      and blen = 3 and base = "Some (cstr ''Content-Length'')" and nm = "\<lparr>off = 0, len = 14\<rparr>"
      and cmp = "Some (cstr ''Host'')" and reqp = "Some test_find_header_req"
      and req = test_find_header_req]
    h11_null_inputs [where base = "Some (cstr [])" and cmp = "Some (cstr ''Host'')"
      and reqp = "Some test_find_header_req" and req = test_find_header_req]
  by simp

text \<open>
  Claim C10: for every request whose \<open>header_count\<close> exceeds \<open>INT_MAX\<close>,
  \<open>h11_find_header\<close> returns \<open>-1\<close>. Consequently every result is either \<open>-1\<close> or a
  matching index \<open>r\<close> with \<open>0 \<le> r \<le> INT_MAX\<close> below \<open>header_count\<close>, so the cast
  \<open>(int)i\<close> never overflows; and on well-formed arguments there is a result.
\<close>

theorem h11_find_header_result_range:
  "(INT_MAX < uint (header_count req) \<longrightarrow> h11_find_header (Some req) base nm = Some (- 1)) \<and>
   (h11_find_header reqp base nm = Some r \<longrightarrow>
      r = - 1 \<or>
      (0 \<le> r \<and> r \<le> INT_MAX \<and>
       (\<exists>rq hs. reqp = Some rq \<and> headers rq = Some hs \<and> r < uint (header_count rq) \<and>
          nat r < length hs \<and> name_matches base hs nm (nat r)))) \<and>
   (headers req = Some hs \<and> length hs = unat (header_count req) \<and>
    name_spans_within b hs \<and> 0 \<in> set n \<longrightarrow>
      (\<exists>r. h11_find_header (Some req) (Some b) (Some n) = Some r))"
proof (intro conjI impI)
  assume "INT_MAX < uint (header_count req)"
  then show "h11_find_header (Some req) base nm = Some (- 1)"
    by (simp add: h11_find_header_def int_max_guard split: option.splits)
next
  assume res: "h11_find_header reqp base nm = Some r"
  show "r = - 1 \<or>
      (0 \<le> r \<and> r \<le> INT_MAX \<and>
       (\<exists>rq hs. reqp = Some rq \<and> headers rq = Some hs \<and> r < uint (header_count rq) \<and>
          nat r < length hs \<and> name_matches base hs nm (nat r)))"
  proof (cases "r = - 1")
    case True
    then show ?thesis by simp
  next
    case False
    with res obtain rq hs where rq: "reqp = Some rq" "headers rq = Some hs"
      and g: "\<not> header_count rq > word_of_int INT_MAX"
      and loop: "find_header_loop hs (header_count rq) base nm 0 = Some r"
      by (auto simp: h11_find_header_def split: if_splits option.splits)
    from g have bound: "uint (header_count rq) \<le> INT_MAX" by (simp add: int_max_guard)
    from find_header_loop_result [OF loop] False
    obtain k :: u32 where k: "unat k < unat (header_count rq)" "unat k < length hs" "r = sint k"
        "name_matches base hs nm (unat k)" by blast
    from k(1) have "k < header_count rq" by (simp add: word_less_nat_alt)
    then have lt: "uint k < uint (header_count rq)" by (simp add: word_less_def)
    with bound have "uint k \<le> INT_MAX" by simp
    then have "sint k = int (unat k)" by (rule sint_small)
    with k(3) have rr: "r = int (unat k)" by simp
    then have "nat r = unat k" by simp
    moreover from rr lt have "r < uint (header_count rq)" by simp
    moreover from this bound have "r \<le> INT_MAX" by simp
    moreover from rr have "0 \<le> r" by simp
    ultimately show ?thesis using rq k(2,4) by simp
  qed
next
  assume wf: "headers req = Some hs \<and> length hs = unat (header_count req) \<and>
    name_spans_within b hs \<and> 0 \<in> set n"
  show "\<exists>r. h11_find_header (Some req) (Some b) (Some n) = Some r"
  proof (cases "INT_MAX < uint (header_count req)")
    case True
    then show ?thesis by (simp add: h11_find_header_def int_max_guard split: option.splits)
  next
    case False
    then have "uint (header_count req) \<le> INT_MAX" by simp
    from find_header_cases [OF this] wf show ?thesis by blast
  qed
qed

theorem h11_find_header_result_range_witness:
  "h11_find_header (Some huge_req) (Some test_find_header_base) (Some (cstr ''host'')) = Some (- 1) \<and>
   (\<exists>r. h11_find_header (Some test_find_header_req) (Some test_find_header_base)
           (Some (cstr ''connection'')) = Some r \<and> (r = - 1 \<or> 0 \<le> r \<and> r \<le> INT_MAX))"
proof -
  have g: "INT_MAX < uint (header_count huge_req)"
    by (simp add: huge_req_def INT_MAX_def)
  have wf: "headers test_find_header_req = Some test_find_header_hdrs \<and>
      length test_find_header_hdrs = unat (header_count test_find_header_req) \<and>
      name_spans_within test_find_header_base test_find_header_hdrs \<and>
      0 \<in> set (cstr ''connection'')"
    by code_simp
  note t = h11_find_header_result_range [where req = huge_req
      and base = "Some test_find_header_base" and nm = "Some (cstr ''host'')"]
  note u = h11_find_header_result_range [where req = test_find_header_req
      and hs = test_find_header_hdrs and b = test_find_header_base and n = "cstr ''connection''"
      and reqp = "Some test_find_header_req" and base = "Some test_find_header_base"
      and nm = "Some (cstr ''connection'')"]
  from u wf obtain r where r: "h11_find_header (Some test_find_header_req)
      (Some test_find_header_base) (Some (cstr ''connection'')) = Some r" by blast
  with u have "r = - 1 \<or> 0 \<le> r \<and> r \<le> INT_MAX" by blast
  with r t g show ?thesis by blast
qed

end
